theory Spec2Isabelle
  imports Complex_Main "HOL-Library.Sublist"
begin

section \<open>Python strings\<close>

text \<open>
  A Python \<open>str\<close> is modelled as a \<open>string\<close> whose characters are the code points
  below 256. \<open>str.isspace\<close> holds there for U+0009..U+000D, U+001C..U+0020, U+0085
  and U+00A0.
\<close>

definition py_isspace :: "char \<Rightarrow> bool" where
  "py_isspace c =
     (let n = (of_char c :: nat)
      in (9 \<le> n \<and> n \<le> 13) \<or> (28 \<le> n \<and> n \<le> 32) \<or> n = 133 \<or> n = 160)"

definition lstrip :: "string \<Rightarrow> string" where
  "lstrip s = dropWhile py_isspace s"

definition rstrip :: "string \<Rightarrow> string" where
  "rstrip s = rev (dropWhile py_isspace (rev s))"

text \<open>\<open>s.strip()\<close>\<close>

definition strip :: "string \<Rightarrow> string" where
  "strip s = lstrip (rstrip s)"

text \<open>\<open>s.rstrip(chars)\<close>: drops every trailing character that occurs in \<open>chars\<close>.\<close>

definition rstrip_chars :: "string \<Rightarrow> string \<Rightarrow> string" where
  "rstrip_chars chars s = rev (dropWhile (\<lambda>c. c \<in> set chars) (rev s))"

text \<open>\<open>needle in haystack\<close> on strings: the needle occurs as a contiguous run.\<close>

fun py_in :: "string \<Rightarrow> string \<Rightarrow> bool" where
  "py_in needle [] = (needle = [])"
| "py_in needle (c # cs) = (prefix needle (c # cs) \<or> py_in needle cs)"

text \<open>\<open>str(n)\<close> for an integer: decimal digits, with a minus sign when negative.\<close>

fun str_nat :: "nat \<Rightarrow> string" where
  "str_nat n =
     (if n < 10 then [char_of (48 + n)]
      else str_nat (n div 10) @ [char_of (48 + n mod 10)])"

declare str_nat.simps [simp del]

definition str_int :: "int \<Rightarrow> string" where
  "str_int i = (if i < 0 then CHR ''-'' # str_nat (nat (- i)) else str_nat (nat i))"

section \<open>Values decoded from JSON, and exceptions\<close>

text \<open>
  The value \<open>response.json()\<close> returns. An object is an association list standing
  for the decoded \<open>dict\<close>; a key is looked up at its first binding. A float carries its
  literal only: the program never computes with it.
\<close>

datatype json =
    JNull
  | JBool bool
  | JInt int
  | JFloat string
  | JStr string
  | JArr "json list"
  | JObj "(string \<times> json) list"

text \<open>
  Exceptions deriving from \<open>Exception\<close>, by the classes the handlers of the program
  tell apart. \<open>Timeout\<close> and \<open>ConnectionError\<close> are those of \<open>requests.exceptions\<close>
  (an exception of both classes is a \<open>Timeout\<close>: that handler comes first). Each
  carries the text \<open>str(e)\<close> gives.
\<close>

datatype exn =
    Timeout string
  | ConnectionError string
  | AttributeError string
  | TypeError string
  | OtherException string

fun str_exn :: "exn \<Rightarrow> string" where
  "str_exn (Timeout m) = m"
| "str_exn (ConnectionError m) = m"
| "str_exn (AttributeError m) = m"
| "str_exn (TypeError m) = m"
| "str_exn (OtherException m) = m"

fun py_type_name :: "json \<Rightarrow> string" where
  "py_type_name JNull = ''NoneType''"
| "py_type_name (JBool b) = ''bool''"
| "py_type_name (JInt i) = ''int''"
| "py_type_name (JFloat f) = ''float''"
| "py_type_name (JStr s) = ''str''"
| "py_type_name (JArr xs) = ''list''"
| "py_type_name (JObj kvs) = ''dict''"

definition no_attribute :: "json \<Rightarrow> string \<Rightarrow> exn" where
  "no_attribute v attr =
     AttributeError ([CHR 0x27] @ py_type_name v @ [CHR 0x27] @ '' object has no attribute ''
                     @ [CHR 0x27] @ attr @ [CHR 0x27])"

definition not_iterable :: "json \<Rightarrow> exn" where
  "not_iterable v =
     TypeError ([CHR 0x27] @ py_type_name v @ [CHR 0x27] @ '' object is not iterable'')"

text \<open>\<open>v.get(key, default)\<close>: only a dict has the method.\<close>

fun py_get :: "json \<Rightarrow> string \<Rightarrow> json \<Rightarrow> exn + json" where
  "py_get (JObj kvs) key dflt = Inr (case map_of kvs key of None \<Rightarrow> dflt | Some v \<Rightarrow> v)"
| "py_get v key dflt = Inl (no_attribute v ''get'')"

text \<open>
  The items a \<open>for\<close> loop draws from a value: the elements of a list, the keys of a
  dict, the characters of a string; anything else is not iterable.
\<close>

fun py_iter :: "json \<Rightarrow> exn + json list" where
  "py_iter (JArr xs) = Inr xs"
| "py_iter (JObj kvs) = Inr (map (\<lambda>kv. JStr (fst kv)) kvs)"
| "py_iter (JStr s) = Inr (map (\<lambda>c. JStr [c]) s)"
| "py_iter v = Inl (not_iterable v)"

text \<open>\<open>v.rstrip('/')\<close>: only a string has the method.\<close>

fun py_rstrip_slash :: "json \<Rightarrow> exn + string" where
  "py_rstrip_slash (JStr s) = Inr (rstrip_chars ''/'' s)"
| "py_rstrip_slash v = Inl (no_attribute v ''rstrip'')"

section \<open>The bulk index check\<close>

record post_request =
  endpoint :: string
  headers :: "(string \<times> string) list"
  body :: json
  timeout :: nat

text \<open>
  What the program reads of an HTTP response: the status code, the body text, and the
  outcome of \<open>response.json()\<close>, which raises on a body that is not JSON.
\<close>

record response =
  status_code :: int
  text_body :: string
  json_result :: "exn + json"

text \<open>The effects of a run, in the order they happen.\<close>

datatype event = Post post_request | Print string | Sleep nat

record checker_state =
  indexed_map :: "string \<rightharpoonup> bool"
  events :: "event list"

definition BATCH_SIZE :: nat where
  "BATCH_SIZE = 20"

definition emit :: "event \<Rightarrow> checker_state \<Rightarrow> checker_state" where
  "emit e st = st\<lparr>events := events st @ [e]\<rparr>"

text \<open>\<open>for u in batch_urls: indexed_map[u] = False\<close>\<close>

definition mark_false :: "string list \<Rightarrow> checker_state \<Rightarrow> checker_state" where
  "mark_false batch_urls st =
     st\<lparr>indexed_map := foldl (\<lambda>m u. m(u \<mapsto> False)) (indexed_map st) batch_urls\<rparr>"

text \<open>
  The generator under \<open>any\<close>, over the items of \<open>organic\<close>: it stops at the first
  item whose link contains the URL, and raises at an item that is no dict or whose link
  is no string, if it gets that far.
\<close>

fun any_link :: "string \<Rightarrow> json list \<Rightarrow> exn + bool" where
  "any_link url [] = Inr False"
| "any_link url (item # rest) =
     (case py_get item ''link'' (JStr '''') of
        Inl e \<Rightarrow> Inl e
      | Inr l \<Rightarrow>
          (case py_rstrip_slash l of
             Inl e \<Rightarrow> Inl e
           | Inr hay \<Rightarrow>
               if py_in (rstrip_chars ''/'' (strip url)) hay then Inr True
               else any_link url rest))"

definition is_found :: "string \<Rightarrow> json \<Rightarrow> exn + bool" where
  "is_found url res =
     (case py_get res ''organic'' (JArr []) of
        Inl e \<Rightarrow> Inl e
      | Inr organic \<Rightarrow>
          (case py_iter organic of
             Inl e \<Rightarrow> Inl e
           | Inr items \<Rightarrow> any_link url items))"

text \<open>
  \<open>for j, res in enumerate(results)\<close>: the URLs of the batch and the results advance
  together; the loop ends with the results, or breaks when the batch has no URL left
  (\<open>j >= len(batch_urls)\<close>). An exception leaves the entries written so far.
\<close>

fun map_results ::
  "string list \<Rightarrow> json list \<Rightarrow> (string \<rightharpoonup> bool) \<Rightarrow> exn option \<times> (string \<rightharpoonup> bool)" where
  "map_results batch_urls [] m = (None, m)"
| "map_results [] (res # results) m = (None, m)"
| "map_results (url # batch_urls) (res # results) m =
     (case is_found url res of
        Inl e \<Rightarrow> (Some e, m)
      | Inr b \<Rightarrow> map_results batch_urls results (m(url \<mapsto> b)))"

text \<open>How the body of the \<open>try\<close> statement is left.\<close>

datatype try_exit = Fallthrough | Continue | Raised exn

definition make_payload :: "string list \<Rightarrow> json" where
  "make_payload batch_urls =
     JArr (map (\<lambda>u. JObj [(''q'', JStr ([CHR 0x22] @ strip u @ [CHR 0x22]))]) batch_urls)"

definition make_request :: "string \<Rightarrow> string list \<Rightarrow> post_request" where
  "make_request api_key batch_urls =
     \<lparr>endpoint = ''https://google.serper.dev/search'',
      headers = [(''X-API-KEY'', api_key), (''Content-Type'', ''application/json'')],
      body = make_payload batch_urls,
      timeout = 30\<rparr>"

text \<open>
  The body of the \<open>try\<close>. \<open>requests_post k req\<close> is the outcome of the \<open>k\<close>-th
  call of \<open>requests.post\<close> in the run (counted from 0), on the request \<open>req\<close>: an
  exception or a response.
\<close>

definition try_batch ::
  "(nat \<Rightarrow> post_request \<Rightarrow> exn + response) \<Rightarrow> nat \<Rightarrow> post_request \<Rightarrow> string list \<Rightarrow>
     checker_state \<Rightarrow> try_exit \<times> checker_state" where
  "try_batch requests_post k req batch_urls st =
     (case requests_post k req of
        Inl e \<Rightarrow> (Raised e, emit (Post req) st)
      | Inr resp \<Rightarrow>
          (let st1 = emit (Post req) st in
           if status_code resp \<noteq> 200 then
             (Continue,
              mark_false batch_urls
                (emit (Print (''Batch failed with status '' @ str_int (status_code resp)
                              @ '': '' @ text_body resp)) st1))
           else
             (case json_result resp of
                Inl e \<Rightarrow> (Raised e, st1)
              | Inr results \<Rightarrow>
                  (case py_iter results of
                     Inl e \<Rightarrow> (Raised e, st1)
                   | Inr rs \<Rightarrow>
                       (case map_results batch_urls rs (indexed_map st1) of
                          (None, m) \<Rightarrow> (Fallthrough, st1\<lparr>indexed_map := m\<rparr>)
                        | (Some e, m) \<Rightarrow> (Raised e, st1\<lparr>indexed_map := m\<rparr>))))))"

text \<open>
  One iteration of the loop over \<open>i\<close>: the \<open>try\<close>, its handler, and the
  \<open>time.sleep(1)\<close> that follows the statement, which \<open>continue\<close> jumps over.
\<close>

definition process_batch ::
  "(nat \<Rightarrow> post_request \<Rightarrow> exn + response) \<Rightarrow> string \<Rightarrow> nat \<Rightarrow> string list \<Rightarrow>
     checker_state \<Rightarrow> checker_state" where
  "process_batch requests_post api_key i batch_urls st =
     (case try_batch requests_post (i div BATCH_SIZE) (make_request api_key batch_urls)
             batch_urls st of
        (Continue, st') \<Rightarrow> st'
      | (Fallthrough, st') \<Rightarrow> emit (Sleep 1) st'
      | (Raised e, st') \<Rightarrow>
          emit (Sleep 1)
            (mark_false batch_urls
               (emit (Print (''Error checking batch '' @ str_nat i @ '': '' @ str_exn e)) st')))"

text \<open>\<open>for i in range(0, len(urls), BATCH_SIZE)\<close>, with \<open>urls[i : i + BATCH_SIZE]\<close>.\<close>

function bulk_loop ::
  "(nat \<Rightarrow> post_request \<Rightarrow> exn + response) \<Rightarrow> string \<Rightarrow> string list \<Rightarrow> nat \<Rightarrow>
     checker_state \<Rightarrow> checker_state" where
  "bulk_loop requests_post api_key urls i st =
     (if i < length urls then
        bulk_loop requests_post api_key urls (i + BATCH_SIZE)
          (process_batch requests_post api_key i (take BATCH_SIZE (drop i urls)) st)
      else st)"
  by pat_completeness auto
termination
  by (relation "measure (\<lambda>(requests_post, api_key, urls, i, st). length urls - i)")
     (auto simp: BATCH_SIZE_def)

declare bulk_loop.simps [simp del]

text \<open>
  The run of \<open>check_index_bulk\<close>: the final mapping together with the effects.
  The value the Python function returns is the mapping.
\<close>

definition check_index_bulk_run ::
  "(nat \<Rightarrow> post_request \<Rightarrow> exn + response) \<Rightarrow> string list \<Rightarrow> string \<Rightarrow> checker_state" where
  "check_index_bulk_run requests_post urls api_key =
     bulk_loop requests_post api_key urls 0 \<lparr>indexed_map = Map.empty, events = []\<rparr>"

definition check_index_bulk ::
  "(nat \<Rightarrow> post_request \<Rightarrow> exn + response) \<Rightarrow> string list \<Rightarrow> string \<Rightarrow> (string \<rightharpoonup> bool)" where
  "check_index_bulk requests_post urls api_key =
     indexed_map (check_index_bulk_run requests_post urls api_key)"

text \<open>
  The slices \<open>urls[i : i + BATCH_SIZE]\<close> the loop takes from index \<open>i\<close> on, in
  order, and the requests and pauses among the effects of a run.
\<close>

function slices :: "'a list \<Rightarrow> nat \<Rightarrow> 'a list list" where
  "slices urls i =
     (if i < length urls then take BATCH_SIZE (drop i urls) # slices urls (i + BATCH_SIZE)
      else [])"
  by pat_completeness auto
termination
  by (relation "measure (\<lambda>(urls, i). length urls - i)") (auto simp: BATCH_SIZE_def)

declare slices.simps [simp del]

fun posts :: "event list \<Rightarrow> post_request list" where
  "posts [] = []"
| "posts (Post r # evs) = r # posts evs"
| "posts (e # evs) = posts evs"

fun sleeps :: "event list \<Rightarrow> nat list" where
  "sleeps [] = []"
| "sleeps (Sleep t # evs) = t # sleeps evs"
| "sleeps (e # evs) = sleeps evs"

text \<open>
  A backend call that failed: the call raised (a transport error), or the status code
  is not 200, or \<open>response.json()\<close> raised (a body that does not parse).
\<close>

definition backend_failure :: "exn + response \<Rightarrow> bool" where
  "backend_failure outcome =
     (case outcome of
        Inl e \<Rightarrow> True
      | Inr resp \<Rightarrow> status_code resp \<noteq> 200 \<or> isl (json_result resp))"

text \<open>
  The links of a result-set of the documented shape: an object whose \<open>organic\<close>, when
  present, is a list of objects that each have a string \<open>link\<close>.
\<close>

fun item_link :: "json \<Rightarrow> string option" where
  "item_link (JObj kvs) = (case map_of kvs ''link'' of Some (JStr l) \<Rightarrow> Some l | _ \<Rightarrow> None)"
| "item_link v = None"

fun those_links :: "json list \<Rightarrow> string list option" where
  "those_links [] = Some []"
| "those_links (item # rest) =
     (case item_link item of
        None \<Rightarrow> None
      | Some l \<Rightarrow> (case those_links rest of None \<Rightarrow> None | Some ls \<Rightarrow> Some (l # ls)))"

fun result_links :: "json \<Rightarrow> string list option" where
  "result_links (JObj kvs) =
     (case map_of kvs ''organic'' of
        None \<Rightarrow> Some []
      | Some (JArr items) \<Rightarrow> those_links items
      | Some v \<Rightarrow> None)"
| "result_links v = None"

text \<open>
  The match as the specification words it: the link too is trimmed before the trailing
  slashes are dropped.
\<close>

definition spec_is_found :: "string \<Rightarrow> string list \<Rightarrow> bool" where
  "spec_is_found url links =
     list_ex (\<lambda>l. sublist (rstrip_chars ''/'' (strip url)) (rstrip_chars ''/'' (strip l))) links"

text \<open>
  The entry a result-set of that shape writes for its URL: whether some link, its
  trailing slashes dropped, contains the stripped URL with its trailing slashes dropped.
\<close>

definition link_match :: "string \<times> string list \<Rightarrow> bool" where
  "link_match p = (\<exists>l \<in> set (snd p).
      sublist (rstrip_chars ''/'' (strip (fst p))) (rstrip_chars ''/'' l))"

definition set_verdict ::
  "(string \<rightharpoonup> bool) \<Rightarrow> string \<times> string list \<Rightarrow> (string \<rightharpoonup> bool)" where
  "set_verdict m p = m(fst p \<mapsto> link_match p)"

section \<open>The parsed page\<close>

text \<open>
  The tree Beautiful Soup builds from a page, as far as the program reads it: a tag with
  its name and children, a text string, and the strings \<open>get_text\<close> leaves out
  (comments, declarations and the like). The parser itself is a parameter of the
  diagnosis; the operations on the tree follow the library's documentation.
\<close>

datatype node =
    NavigableString string
  | SpecialString string
  | Tag string "node list"

text \<open>\<open>soup.find(name)\<close>: the children of the first tag of that name, in document order.\<close>

fun find_tag :: "string \<Rightarrow> node list \<Rightarrow> node list option" where
  "find_tag name [] = None"
| "find_tag name (Tag t cs # ns) =
     (if t = name then Some cs
      else (case find_tag name cs of Some r \<Rightarrow> Some r | None \<Rightarrow> find_tag name ns))"
| "find_tag name (n # ns) = find_tag name ns"

text \<open>
  \<open>tag.string\<close> from the children of the tag: the only child when it is a string, the
  \<open>.string\<close> of the only child when it is a tag, and \<open>None\<close> otherwise.
\<close>

fun tag_string :: "node list \<Rightarrow> string option" where
  "tag_string [NavigableString s] = Some s"
| "tag_string [SpecialString s] = Some s"
| "tag_string [Tag t cs] = tag_string cs"
| "tag_string cs = None"

text \<open>\<open>for script in soup(names): script.extract()\<close>: every tag of these names leaves the tree.\<close>

fun extract_tags :: "string list \<Rightarrow> node list \<Rightarrow> node list" where
  "extract_tags names [] = []"
| "extract_tags names (Tag t cs # ns) =
     (if t \<in> set names then extract_tags names ns
      else Tag t (extract_tags names cs) # extract_tags names ns)"
| "extract_tags names (n # ns) = n # extract_tags names ns"

text \<open>The strings \<open>get_text(strip=True)\<close> collects: each text string stripped, the empty ones dropped.\<close>

fun all_strings :: "node list \<Rightarrow> string list" where
  "all_strings [] = []"
| "all_strings (NavigableString s # ns) =
     (if strip s = [] then all_strings ns else strip s # all_strings ns)"
| "all_strings (SpecialString s # ns) = all_strings ns"
| "all_strings (Tag t cs # ns) = all_strings cs @ all_strings ns"

text \<open>\<open>separator.join(parts)\<close>\<close>

fun join :: "string \<Rightarrow> string list \<Rightarrow> string" where
  "join sep [] = []"
| "join sep [p] = p"
| "join sep (p # q # ps) = p @ sep @ join sep (q # ps)"

definition get_text :: "string \<Rightarrow> node list \<Rightarrow> string" where
  "get_text separator soup = join separator (all_strings soup)"

section \<open>The diagnosis of a page\<close>

definition browser_headers :: "(string \<times> string) list" where
  "browser_headers =
     [(''User-Agent'',
       ''Mozilla/5.0 (Windows NT 10.0; Win64; x64) AppleWebKit/537.36 (KHTML, like Gecko) Chrome/120.0.0.0 Safari/537.36''),
      (''Accept'',
       ''text/html,application/xhtml+xml,application/xml;q=0.9,image/avif,image/webp,*/*;q=0.8''),
      (''Accept-Language'', ''en-US,en;q=0.5''),
      (''Referer'', ''https://www.google.com/'')]"

text \<open>
  \<open>soup.title.string.strip() if soup.title and soup.title.string else url\<close>: a tag is
  true, a string is true when it is not empty.
\<close>

definition page_title :: "string \<Rightarrow> node list \<Rightarrow> string" where
  "page_title url soup =
     (case find_tag ''title'' soup of
        None \<Rightarrow> url
      | Some cs \<Rightarrow>
          (case tag_string cs of
             None \<Rightarrow> url
           | Some s \<Rightarrow> if s = [] then url else strip s))"

text \<open>
  The title as the specification words it: the URL when the page has no \<open>title\<close> tag
  or the text under the tag is empty, otherwise that text, stripped. The text under a
  tag is the concatenation of its text strings, in document order.
\<close>

fun text_strings :: "node list \<Rightarrow> string list" where
  "text_strings [] = []"
| "text_strings (NavigableString s # ns) = s # text_strings ns"
| "text_strings (SpecialString s # ns) = text_strings ns"
| "text_strings (Tag t cs # ns) = text_strings cs @ text_strings ns"

definition spec_page_title :: "string \<Rightarrow> node list \<Rightarrow> string" where
  "spec_page_title url soup =
     (case find_tag ''title'' soup of
        None \<Rightarrow> url
      | Some cs \<Rightarrow>
          (let title_text = concat (text_strings cs)
           in if title_text = [] then url else strip title_text))"

definition page_text :: "node list \<Rightarrow> string" where
  "page_text soup = take 1500 (get_text '' '' (extract_tags [''script'', ''style''] soup))"

definition make_prompt :: "string \<Rightarrow> string \<Rightarrow> string \<Rightarrow> string" where
  "make_prompt url title text_snippet =
     (let content = ''Title: '' @ title @ [CHR 0x0A] @ ''Page Text Snippet: '' @ text_snippet
      in ''Analyze this web page for SEO indexing issues.'' @ [CHR 0x0A]
         @ ''URL: '' @ url @ [CHR 0x0A]
         @ ''Content Extracted:'' @ [CHR 0x0A] @ content @ [CHR 0x0A, CHR 0x0A]
         @ ''Task: The page is NOT indexed by Google. Based on the content above, ''
         @ ''give 1 likely technical or content reason (e.g., '' @ [CHR 0x27] @ ''Thin content''
         @ [CHR 0x27] @ '', '' @ [CHR 0x27] @ ''Under construction'' @ [CHR 0x27] @ '', ''
         @ [CHR 0x27] @ ''Login wall'' @ [CHR 0x27] @ '', '' @ [CHR 0x27] @ ''Technical error''
         @ [CHR 0x27] @ '').''
         @ ''Keep it under 15 words.'')"

text \<open>The prompt built from a parsed page: the title is read before the tags are removed.\<close>

definition diagnosis_prompt :: "string \<Rightarrow> node list \<Rightarrow> string" where
  "diagnosis_prompt url soup =
     (let title = page_title url soup;
          text_snippet = page_text soup
      in make_prompt url title text_snippet)"

text \<open>
  The body of the \<open>try\<close>. The surroundings are parameters: \<open>requests_get\<close> gives
  the outcome of the fetch (URL, headers, timeout), \<open>BeautifulSoup\<close> that of parsing
  a body with the named parser, and \<open>generate_content\<close> that of the model call (model
  name, prompt): an exception, or the \<open>text\<close> of the response, which may be \<open>None\<close>.
\<close>

definition diagnosis_try ::
  "(string \<Rightarrow> (string \<times> string) list \<Rightarrow> nat \<Rightarrow> exn + response) \<Rightarrow>
   (string \<Rightarrow> string \<Rightarrow> exn + node list) \<Rightarrow>
   (string \<Rightarrow> string \<Rightarrow> exn + string option) \<Rightarrow> string \<Rightarrow> exn + string" where
  "diagnosis_try requests_get BeautifulSoup generate_content url =
     (case requests_get url browser_headers 15 of
        Inl e \<Rightarrow> Inl e
      | Inr res \<Rightarrow>
          if status_code res \<noteq> 200 then
            Inr (''Site blocked the crawler (Status Code: '' @ str_int (status_code res) @ '').'')
          else
            (case BeautifulSoup (text_body res) ''html.parser'' of
               Inl e \<Rightarrow> Inl e
             | Inr soup \<Rightarrow>
                 (case generate_content ''gemini-3-flash-preview'' (diagnosis_prompt url soup) of
                    Inl e \<Rightarrow> Inl e
                  | Inr None \<Rightarrow> Inl (no_attribute JNull ''strip'')
                  | Inr (Some t) \<Rightarrow> Inr (strip t))))"

text \<open>The handlers, in the order of the source.\<close>

fun diagnosis_handler :: "exn \<Rightarrow> string" where
  "diagnosis_handler (Timeout m) = ''Error: Connection timed out (Site is slow).''"
| "diagnosis_handler (ConnectionError m) = ''Error: Connection refused (Bot protection).''"
| "diagnosis_handler e = ''Error: '' @ str_exn e"

definition get_ai_diagnosis ::
  "(string \<Rightarrow> (string \<times> string) list \<Rightarrow> nat \<Rightarrow> exn + response) \<Rightarrow>
   (string \<Rightarrow> string \<Rightarrow> exn + node list) \<Rightarrow>
   (string \<Rightarrow> string \<Rightarrow> exn + string option) \<Rightarrow> string \<Rightarrow> string" where
  "get_ai_diagnosis requests_get BeautifulSoup generate_content url =
     (case diagnosis_try requests_get BeautifulSoup generate_content url of
        Inr s \<Rightarrow> s
      | Inl e \<Rightarrow> diagnosis_handler e)"

section \<open>Properties of the bulk index check\<close>

lemma posts_append [simp]: "posts (xs @ ys) = posts xs @ posts ys"
  by (induction xs rule: posts.induct) auto


lemma py_in_sublist: "py_in xs ys = sublist xs ys"
  by (induction ys) (simp_all add: sublist_Cons_right)

lemma foldl_mark: "foldl (\<lambda>m u. m(u \<mapsto> False)) m b u = (if u \<in> set b then Some False else m u)"
  by (induction b arbitrary: m) auto

lemma indexed_map_mark_false:
  "indexed_map (mark_false b st) u = (if u \<in> set b then Some False else indexed_map st u)"
  by (simp add: mark_false_def foldl_mark)

lemma events_mark_false [simp]: "events (mark_false b st) = events st"
  by (simp add: mark_false_def)

lemma mark_false_add:
  "indexed_map (mark_false b st) = indexed_map st ++ (\<lambda>u. if u \<in> set b then Some False else None)"
  by (rule ext) (simp add: indexed_map_mark_false map_add_def)

lemma map_results_delta:
  "\<exists>x d. dom d \<subseteq> set b \<and> (\<forall>m. map_results b rs m = (x, m ++ d))"
proof (induction b arbitrary: rs)
  case Nil
  show ?case by (cases rs) (auto intro: exI[of _ Map.empty])
next
  case (Cons u us)
  show ?case
  proof (cases rs)
    case Nil
    then show ?thesis by (auto intro: exI[of _ Map.empty])
  next
    case (Cons r rs')
    show ?thesis
    proof (cases "is_found u r")
      case (Inl e)
      with Cons show ?thesis by (auto intro: exI[of _ Map.empty])
    next
      case (Inr v)
      from Cons.IH[of rs'] obtain x d where d: "dom d \<subseteq> set us" "\<And>m. map_results us rs' m = (x, m ++ d)"
        by blast
      have "\<forall>m. map_results (u # us) rs m = (x, m ++ ([u \<mapsto> v] ++ d))"
        using Cons Inr d(2) by (auto simp: map_add_def fun_eq_iff split: option.splits)
      moreover have "dom ([u \<mapsto> v] ++ d) \<subseteq> set (u # us)" using d(1) by auto
      ultimately show ?thesis by blast
    qed
  qed
qed

lemma foldl_mark_add:
  "foldl (\<lambda>m u. m(u \<mapsto> False)) m b = m ++ (\<lambda>u. if u \<in> set b then Some False else None)"
  by (rule ext) (simp add: foldl_mark map_add_def)

lemma process_batch_delta:
  "\<exists>d evs. dom d \<subseteq> set b \<and> posts evs = [make_request key b] \<and>
     (\<forall>st. process_batch rp key i b st =
        st\<lparr>indexed_map := indexed_map st ++ d, events := events st @ evs\<rparr>)"
proof -
  let ?k = "i div BATCH_SIZE" and ?req = "make_request key b"
  let ?F = "\<lambda>u. if u \<in> set b then Some False else None"
  let ?err = "\<lambda>e. [Post ?req, Print (''Error checking batch '' @ str_nat i @ '': '' @ str_exn e),
                   Sleep 1]"
  have F: "dom ?F \<subseteq> set b" by (auto split: if_splits)
  have P: "posts (?err e) = [?req]" for e by simp
  note defs = process_batch_def try_batch_def emit_def mark_false_def foldl_mark_add Let_def
  show ?thesis
  proof (cases "rp ?k ?req")
    case (Inl e)
    then have "\<forall>st. process_batch rp key i b st =
        st\<lparr>indexed_map := indexed_map st ++ ?F, events := events st @ ?err e\<rparr>"
      by (simp add: defs)
    with F P[of e] show ?thesis by blast
  next
    case resp: (Inr resp)
    show ?thesis
    proof (cases "status_code resp = 200")
      case False
      let ?evs = "[Post ?req, Print (''Batch failed with status '' @ str_int (status_code resp)
                              @ '': '' @ text_body resp)]"
      from False resp have "\<forall>st. process_batch rp key i b st =
        st\<lparr>indexed_map := indexed_map st ++ ?F, events := events st @ ?evs\<rparr>"
        by (simp add: defs)
      moreover have "posts ?evs = [?req]" by simp
      ultimately show ?thesis using F by blast
    next
      case ok: True
      show ?thesis
      proof (cases "json_result resp")
        case (Inl e)
        with resp ok have "\<forall>st. process_batch rp key i b st =
          st\<lparr>indexed_map := indexed_map st ++ ?F, events := events st @ ?err e\<rparr>"
          by (simp add: defs)
        with F P[of e] show ?thesis by blast
      next
        case js: (Inr results)
        show ?thesis
        proof (cases "py_iter results")
          case (Inl e)
          with resp ok js have "\<forall>st. process_batch rp key i b st =
            st\<lparr>indexed_map := indexed_map st ++ ?F, events := events st @ ?err e\<rparr>"
            by (simp add: defs)
          with F P[of e] show ?thesis by blast
        next
          case it: (Inr rs)
          obtain x d where d: "dom d \<subseteq> set b" "\<And>m. map_results b rs m = (x, m ++ d)"
            using map_results_delta[of b rs] by blast
          show ?thesis
          proof (cases x)
            case None
            with resp ok js it d(2) have "\<forall>st. process_batch rp key i b st =
              st\<lparr>indexed_map := indexed_map st ++ d, events := events st @ [Post ?req, Sleep 1]\<rparr>"
              by (simp add: defs)
            moreover have "posts [Post ?req, Sleep 1] = [?req]" by simp
            ultimately show ?thesis using d(1) by blast
          next
            case (Some e)
            with resp ok js it d(2) have "\<forall>st. process_batch rp key i b st =
              st\<lparr>indexed_map := indexed_map st ++ (d ++ ?F), events := events st @ ?err e\<rparr>"
              by (simp add: defs)
            moreover have "dom (d ++ ?F) \<subseteq> set b" using d(1) F by auto
            ultimately show ?thesis using P[of e] by blast
          qed
        qed
      qed
    qed
  qed
qed

lemma posts_process_batch:
  "posts (events (process_batch rp key i b st)) = posts (events st) @ [make_request key b]"
proof -
  obtain d evs where d: "posts evs = [make_request key b]"
    "\<And>st. process_batch rp key i b st = st\<lparr>indexed_map := indexed_map st ++ d, events := events st @ evs\<rparr>"
    using process_batch_delta[where b=b and rp=rp and key=key and i=i] by blast
  show ?thesis by (simp add: d)
qed

lemma process_batch_untouched:
  "u \<notin> set b \<Longrightarrow> indexed_map (process_batch rp key i b st) u = indexed_map st u"
proof -
  assume u: "u \<notin> set b"
  obtain d evs where d: "dom d \<subseteq> set b"
    "\<And>st. process_batch rp key i b st = st\<lparr>indexed_map := indexed_map st ++ d, events := events st @ evs\<rparr>"
    using process_batch_delta[where b=b and rp=rp and key=key and i=i] by blast
  from u d(1) have "d u = None" by auto
  then show ?thesis by (simp add: d(2) map_add_def)
qed

lemma bulk_loop_untouched:
  "u \<notin> set (drop i urls) \<Longrightarrow> indexed_map (bulk_loop rp key urls i st) u = indexed_map st u"
proof (induction rp key urls i st rule: bulk_loop.induct)
  case (1 rp key urls i st)
  show ?case
  proof (cases "i < length urls")
    case True
    have a: "u \<notin> set (take BATCH_SIZE (drop i urls))"
      using "1.prems" by (auto dest: in_set_takeD)
    have b: "u \<notin> set (drop (i + BATCH_SIZE) urls)"
      using "1.prems" by (metis add.commute drop_drop in_set_dropD)
    show ?thesis
      using True "1.IH"[OF True b] process_batch_untouched[OF a]
      by (subst bulk_loop.simps) simp
  next
    case False
    then show ?thesis by (subst bulk_loop.simps) simp
  qed
qed

lemma posts_bulk_loop:
  "posts (events (bulk_loop rp key urls i st)) =
     posts (events st) @ map (make_request key) (slices urls i)"
proof (induction rp key urls i st rule: bulk_loop.induct)
  case (1 rp key urls i st)
  show ?case
  proof (cases "i < length urls")
    case True
    then show ?thesis
      using "1.IH"[OF True]
      by (subst bulk_loop.simps, subst slices.simps) (simp add: posts_process_batch)
  next
    case False
    then show ?thesis by (subst bulk_loop.simps, subst slices.simps) simp
  qed
qed

lemma concat_slices: "concat (slices urls i) = drop i urls"
proof (induction urls i rule: slices.induct)
  case (1 urls i)
  show ?case
  proof (cases "i < length urls")
    case True
    have "take BATCH_SIZE (drop i urls) @ drop (i + BATCH_SIZE) urls = drop i urls"
      by (metis add.commute append_take_drop_id drop_drop)
    then show ?thesis using True "1.IH"[OF True] by (subst slices.simps) simp
  next
    case False
    then show ?thesis by (subst slices.simps) simp
  qed
qed

lemma ceil_step:
  assumes "0 < (k::nat)"
  shows "Suc ((k - 20 + 19) div 20) = (k + 19) div 20"
proof (cases "k \<le> 20")
  case True
  then have "k - 20 = 0" by simp
  moreover have "(k + 19) div 20 = 1" using True assms by (simp add: div_nat_eqI)
  ultimately show ?thesis by simp
next
  case False
  then have "k + 19 = (k - 20 + 19) + 20" by simp
  then have "(k + 19) div 20 = (k - 20 + 19 + 20) div 20" by simp
  also have "\<dots> = Suc ((k - 20 + 19) div 20)" by (simp only: div_add_self2)
  finally show ?thesis by simp
qed

lemma length_slices: "length (slices urls i) = (length urls - i + 19) div 20"
proof (induction urls i rule: slices.induct)
  case (1 urls i)
  show ?case
  proof (cases "i < length urls")
    case True
    have "length (slices urls i) = Suc (length (slices urls (i + BATCH_SIZE)))"
      using True by (subst slices.simps) simp
    also have "\<dots> = Suc ((length urls - i - 20 + 19) div 20)"
      using "1.IH"[OF True] by (simp add: BATCH_SIZE_def)
    also have "\<dots> = (length urls - i + 19) div 20"
      using True by (intro ceil_step) simp
    finally show ?thesis .
  next
    case False
    then show ?thesis by (subst slices.simps) simp
  qed
qed

lemma ceil_div: "int ((n + 19) div 20) = \<lceil>real n / 20\<rceil>"
proof -
  have "\<lceil>real n / 20\<rceil> = \<lceil>real_of_int (int n) / real_of_int 20\<rceil>" by simp
  also have "\<dots> = - ((- int n) div 20)" by (simp only: ceiling_divide_eq_div)
  also have "\<dots> = int ((n + 19) div 20)" by (simp add: zdiv_int)
  finally show ?thesis by simp
qed

lemma slices_bounds: "b \<in> set (slices urls i) \<Longrightarrow> b \<noteq> [] \<and> length b \<le> BATCH_SIZE"
proof (induction urls i rule: slices.induct)
  case (1 urls i)
  show ?case
  proof (cases "i < length urls")
    case True
    then show ?thesis using "1.IH"[OF True] "1.prems"
      by (subst (asm) slices.simps) (auto simp: BATCH_SIZE_def)
  next
    case False
    then show ?thesis using "1.prems" by (subst (asm) slices.simps) simp
  qed
qed

lemma nth_slices:
  "k < length (slices urls i) \<Longrightarrow> slices urls i ! k = take BATCH_SIZE (drop (i + k * BATCH_SIZE) urls)"
proof (induction urls i arbitrary: k rule: slices.induct)
  case (1 urls i)
  show ?case
  proof (cases "i < length urls")
    case True
    have s: "slices urls i = take BATCH_SIZE (drop i urls) # slices urls (i + BATCH_SIZE)"
      using True by (subst slices.simps) simp
    show ?thesis
    proof (cases k)
      case 0
      then show ?thesis by (simp add: s)
    next
      case (Suc k')
      with "1.prems" s have "k' < length (slices urls (i + BATCH_SIZE))" by simp
      from "1.IH"[OF True this] show ?thesis by (simp add: s Suc add.assoc)
    qed
  next
    case False
    with "1.prems" show ?thesis by (subst (asm) slices.simps) simp
  qed
qed

lemma char_of_digit:
  "char_of (48::nat) = CHR ''0''" "char_of (49::nat) = CHR ''1''" "char_of (50::nat) = CHR ''2''"
  "char_of (51::nat) = CHR ''3''" "char_of (52::nat) = CHR ''4''" "char_of (53::nat) = CHR ''5''"
  "char_of (54::nat) = CHR ''6''" "char_of (55::nat) = CHR ''7''" "char_of (56::nat) = CHR ''8''"
  "char_of (57::nat) = CHR ''9''"
  by code_simp+

lemma process_batch_failure:
  assumes "backend_failure (rp (i div BATCH_SIZE) (make_request key b))" and "u \<in> set b"
  shows "indexed_map (process_batch rp key i b st) u = Some False"
  using assms
  by (auto simp: backend_failure_def process_batch_def try_batch_def emit_def
        indexed_map_mark_false Let_def split: sum.splits)

lemma process_batch_cong:
  "rp' (i div BATCH_SIZE) (make_request key b) = rp (i div BATCH_SIZE) (make_request key b) \<Longrightarrow>
   process_batch rp' key i b st = process_batch rp key i b st"
  by (simp add: process_batch_def try_batch_def)

lemma process_batch_pointwise:
  assumes "indexed_map st u = indexed_map st' u"
  shows "indexed_map (process_batch rp key i b st) u = indexed_map (process_batch rp key i b st') u"
proof -
  obtain d evs where
    "\<And>st. process_batch rp key i b st = st\<lparr>indexed_map := indexed_map st ++ d, events := events st @ evs\<rparr>"
    using process_batch_delta[where b=b and rp=rp and key=key and i=i] by blast
  then show ?thesis using assms by (auto simp: map_add_def split: option.splits)
qed

lemma bulk_loop_noninterference:
  "BATCH_SIZE dvd i0 \<Longrightarrow> (\<And>k req. k \<noteq> i0 div BATCH_SIZE \<Longrightarrow> rp' k req = rp k req) \<Longrightarrow>
   u \<notin> set (take BATCH_SIZE (drop i0 urls)) \<Longrightarrow>
   BATCH_SIZE dvd i \<Longrightarrow> indexed_map st' u = indexed_map st u \<Longrightarrow>
   indexed_map (bulk_loop rp' key urls i st') u = indexed_map (bulk_loop rp key urls i st) u"
proof (induction rp' key urls i st' arbitrary: st rule: bulk_loop.induct)
  case (1 rp' key urls i st')
  note i0 = "1.prems"(1) and agree = "1.prems"(2) and u = "1.prems"(3)
    and di = "1.prems"(4) and eq = "1.prems"(5)
  show ?case
  proof (cases "i < length urls")
    case True
    let ?b = "take BATCH_SIZE (drop i urls)"
    have step: "indexed_map (process_batch rp' key i ?b st') u = indexed_map (process_batch rp key i ?b st) u"
    proof (cases "i = i0")
      case True
      with u eq show ?thesis by (simp add: process_batch_untouched)
    next
      case False
      have "i div BATCH_SIZE \<noteq> i0 div BATCH_SIZE"
        using False i0 di by (auto simp: BATCH_SIZE_def elim!: dvdE)
      then have "process_batch rp' key i ?b st' = process_batch rp key i ?b st'"
        by (intro process_batch_cong agree)
      then show ?thesis using process_batch_pointwise[OF eq] by simp
    qed
    have d: "BATCH_SIZE dvd i + BATCH_SIZE" using di by simp
    show ?thesis
      using True "1.IH"[OF True i0 agree u d step]
      by (subst bulk_loop.simps, subst (2) bulk_loop.simps) simp
  next
    case False
    then show ?thesis using eq
      by (subst bulk_loop.simps, subst (2) bulk_loop.simps) simp
  qed
qed

lemma bulk_loop_failed_batch:
  "BATCH_SIZE dvd i0 \<Longrightarrow> i0 < length urls \<Longrightarrow>
   backend_failure (rp (i0 div BATCH_SIZE) (make_request key (take BATCH_SIZE (drop i0 urls)))) \<Longrightarrow>
   u \<in> set (take BATCH_SIZE (drop i0 urls)) \<Longrightarrow> u \<notin> set (drop (i0 + BATCH_SIZE) urls) \<Longrightarrow>
   BATCH_SIZE dvd i \<Longrightarrow> i \<le> i0 \<Longrightarrow>
   indexed_map (bulk_loop rp key urls i st) u = Some False"
proof (induction rp key urls i st rule: bulk_loop.induct)
  case (1 rp key urls i st)
  note i0 = "1.prems"(1,2) and fail = "1.prems"(3) and u = "1.prems"(4,5)
    and di = "1.prems"(6) and le = "1.prems"(7)
  from le i0(2) have lt: "i < length urls" by simp
  show ?case
  proof (cases "i = i0")
    case True
    have "indexed_map (bulk_loop rp key urls i st) u
        = indexed_map (bulk_loop rp key urls (i0 + BATCH_SIZE)
            (process_batch rp key i0 (take BATCH_SIZE (drop i0 urls)) st)) u"
      using lt True by (subst bulk_loop.simps) simp
    also have "\<dots> = indexed_map (process_batch rp key i0 (take BATCH_SIZE (drop i0 urls)) st) u"
      by (rule bulk_loop_untouched[OF u(2)])
    also have "\<dots> = Some False" using fail u(1) by (rule process_batch_failure)
    finally show ?thesis .
  next
    case False
    have "i + BATCH_SIZE \<le> i0"
      using False le di i0(1) by (auto simp: BATCH_SIZE_def elim!: dvdE)
    moreover have "BATCH_SIZE dvd i + BATCH_SIZE" using di by simp
    ultimately show ?thesis
      using lt "1.IH"[OF lt i0 fail u] by (subst bulk_loop.simps) simp
  qed
qed


lemma slices_start:
  assumes "k < length (slices urls 0)"
  shows "k * BATCH_SIZE < length urls"
  using assms by (simp add: length_slices BATCH_SIZE_def)

lemma item_link_Some:
  "item_link item = Some l \<Longrightarrow> py_get item ''link'' (JStr '''') = Inr (JStr l)"
  by (cases item) (auto split: option.splits json.splits)

lemma any_link_links:
  "those_links items = Some ls \<Longrightarrow>
   any_link url items
     = Inr (\<exists>l \<in> set ls. sublist (rstrip_chars ''/'' (strip url)) (rstrip_chars ''/'' l))"
proof (induction items arbitrary: ls)
  case Nil
  then show ?case by simp
next
  case (Cons item rest)
  from Cons.prems obtain l ls' where l: "item_link item = Some l"
    and r: "those_links rest = Some ls'" and ls: "ls = l # ls'"
    by (auto split: option.splits)
  show ?case
    using Cons.IH[OF r] item_link_Some[OF l] by (simp add: ls py_in_sublist)
qed

lemma is_found_links:
  "result_links res = Some ls \<Longrightarrow>
   is_found url res
     = Inr (\<exists>l \<in> set ls. sublist (rstrip_chars ''/'' (strip url)) (rstrip_chars ''/'' l))"
  by (cases res) (auto simp: is_found_def any_link_links split: option.splits json.splits)

lemma foldl_verdict_other:
  "u \<notin> fst ` set ps \<Longrightarrow> foldl set_verdict m ps u = m u"
proof (induction ps arbitrary: m)
  case Nil
  then show ?case by simp
next
  case (Cons p ps)
  then have "foldl set_verdict (set_verdict m p) ps u = set_verdict m p u" by simp
  also have "\<dots> = m u" using Cons.prems by (simp add: set_verdict_def)
  finally show ?case by simp
qed

lemma foldl_verdict_last:
  "j < length ps \<Longrightarrow> (\<forall>j'. j < j' \<and> j' < length ps \<longrightarrow> fst (ps ! j') \<noteq> fst (ps ! j)) \<Longrightarrow>
   foldl set_verdict m ps (fst (ps ! j)) = Some (link_match (ps ! j))"
proof (induction ps arbitrary: m j)
  case Nil
  then show ?case by simp
next
  case (Cons p ps)
  show ?case
  proof (cases j)
    case 0
    have "fst p \<notin> fst ` set ps"
    proof
      assume "fst p \<in> fst ` set ps"
      then obtain q where "q \<in> set ps" "fst q = fst p" by auto
      then obtain n where "n < length ps" "ps ! n = q" by (auto simp: in_set_conv_nth)
      with Cons.prems(2)[rule_format, of "Suc n"] 0 \<open>fst q = fst p\<close> show False by simp
    qed
    then have "foldl set_verdict (set_verdict m p) ps (fst p) = set_verdict m p (fst p)"
      by (rule foldl_verdict_other)
    also have "\<dots> = Some (link_match p)" by (simp add: set_verdict_def)
    finally show ?thesis using 0 by simp
  next
    case (Suc j')
    have "j' < length ps" using Cons.prems(1) Suc by simp
    moreover have "\<forall>k. j' < k \<and> k < length ps \<longrightarrow> fst (ps ! k) \<noteq> fst (ps ! j')"
    proof (intro allI impI)
      fix k assume "j' < k \<and> k < length ps"
      with Cons.prems(2)[rule_format, of "Suc k"] Suc show "fst (ps ! k) \<noteq> fst (ps ! j')" by simp
    qed
    ultimately show ?thesis using Cons.IH[of j' "set_verdict m p"] Suc by simp
  qed
qed

lemma map_results_links:
  "map result_links rs = map Some lss \<Longrightarrow>
   map_results b rs m = (None, foldl set_verdict m (zip b lss))"
proof (induction b arbitrary: rs lss m)
  case Nil
  then show ?case by (cases rs) auto
next
  case (Cons u us)
  show ?case
  proof (cases rs)
    case Nil
    with Cons.prems show ?thesis by simp
  next
    case (Cons r rs')
    with Cons.prems obtain ls lss' where lss: "lss = ls # lss'"
      and r: "result_links r = Some ls" and rest: "map result_links rs' = map Some lss'"
      by (cases lss) auto
    define B where "B = link_match (u, ls)"
    have f: "is_found u r = Inr B"
      using is_found_links[OF r, of u] by (simp add: B_def link_match_def)
    have v: "set_verdict m (u, ls) = m(u \<mapsto> B)"
      by (simp add: set_verdict_def B_def)
    have "map_results (u # us) rs m = map_results us rs' (m(u \<mapsto> B))"
      by (simp add: Cons f)
    also have "\<dots> = (None, foldl set_verdict (m(u \<mapsto> B)) (zip us lss'))"
      by (rule Cons.IH[OF rest])
    also have "\<dots> = (None, foldl set_verdict m (zip (u # us) lss))"
      by (simp only: lss zip_Cons_Cons foldl_Cons v)
    finally show ?thesis .
  qed
qed

text \<open>Every key of the returned mapping is an input URL.\<close>

lemma dom_bulk_loop:
  "dom (indexed_map (bulk_loop rp key urls i st)) \<subseteq> dom (indexed_map st) \<union> set (drop i urls)"
proof (induction rp key urls i st rule: bulk_loop.induct)
  case (1 rp key urls i st)
  show ?case
  proof (cases "i < length urls")
    case True
    let ?b = "take BATCH_SIZE (drop i urls)"
    obtain d evs where d: "dom d \<subseteq> set ?b"
      "\<And>st. process_batch rp key i ?b st
         = st\<lparr>indexed_map := indexed_map st ++ d, events := events st @ evs\<rparr>"
      using process_batch_delta[where b="?b" and rp=rp and key=key and i=i] by blast
    have "dom (indexed_map (process_batch rp key i ?b st)) \<subseteq> dom (indexed_map st) \<union> set ?b"
      using d(1) by (auto simp: d(2))
    moreover have "set ?b \<subseteq> set (drop i urls)" by (rule set_take_subset)
    moreover have "set (drop (i + BATCH_SIZE) urls) \<subseteq> set (drop i urls)"
      by (metis add.commute drop_drop set_drop_subset)
    ultimately have "dom (indexed_map (bulk_loop rp key urls (i + BATCH_SIZE)
                         (process_batch rp key i ?b st)))
                     \<subseteq> dom (indexed_map st) \<union> set (drop i urls)"
      using "1.IH"[OF True] by blast
    then show ?thesis using True by (subst bulk_loop.simps) simp
  next
    case False
    then show ?thesis by (subst bulk_loop.simps) simp
  qed
qed

lemma dom_check_index_bulk: "dom (check_index_bulk requests_post urls api_key) \<subseteq> set urls"
  using dom_bulk_loop[of requests_post api_key urls 0 "\<lparr>indexed_map = Map.empty, events = []\<rparr>"]
  by (simp add: check_index_bulk_def check_index_bulk_run_def)

section \<open>Properties of the diagnosis\<close>

lemma diagnosis_on_parsed_page:
  assumes "requests_get url browser_headers 15 = Inr res" "status_code res = 200"
    and "BeautifulSoup (text_body res) ''html.parser'' = Inr soup"
  shows "get_ai_diagnosis requests_get BeautifulSoup generate_content url
       = (case generate_content ''gemini-3-flash-preview'' (diagnosis_prompt url soup) of
            Inl e \<Rightarrow> diagnosis_handler e
          | Inr None \<Rightarrow> diagnosis_handler (no_attribute JNull ''strip'')
          | Inr (Some t) \<Rightarrow> strip t)"
  using assms by (simp add: get_ai_diagnosis_def diagnosis_try_def split: sum.splits option.splits)

lemma find_tag_extract_tags:
  "name \<in> set names \<Longrightarrow> find_tag name (extract_tags names ns) = None"
  by (induction names ns rule: extract_tags.induct) auto

lemma diagnosis_handler_other:
  "(\<forall>m. e \<noteq> Timeout m) \<Longrightarrow> (\<forall>m. e \<noteq> ConnectionError m) \<Longrightarrow>
   diagnosis_handler e = ''Error: '' @ str_exn e"
  by (cases e) simp_all

lemma get_ai_diagnosis_raised:
  "diagnosis_try requests_get BeautifulSoup generate_content url = Inl e \<Longrightarrow>
   get_ai_diagnosis requests_get BeautifulSoup generate_content url = diagnosis_handler e"
  by (simp add: get_ai_diagnosis_def)

section \<open>The claims\<close>

text \<open>
  C10: on an empty URL list \<open>check_index_bulk\<close> returns the empty mapping, and the run
  has no effect at all: no backend request, no pause, nothing printed.
\<close>

theorem check_index_bulk_empty:
  "check_index_bulk requests_post [] api_key = Map.empty \<and>
   events (check_index_bulk_run requests_post [] api_key) = []"
  by (simp add: check_index_bulk_def check_index_bulk_run_def bulk_loop.simps)

text \<open>
  C5: for \<open>N\<close> URLs the run issues exactly \<open>\<lceil>N / 20\<rceil>\<close> backend calls, one per
  slice and in the order of the slices; the slices are consecutive (\<open>urls[20k : 20k + 20]\<close>),
  non-empty, of at most 20 URLs, and concatenate to the input; the body of each call
  holds one quoted query per URL of its slice, in order.
\<close>

theorem bulk_batches:
  "posts (events (check_index_bulk_run requests_post urls api_key))
     = map (make_request api_key) (slices urls 0)
   \<and> int (length (posts (events (check_index_bulk_run requests_post urls api_key))))
     = \<lceil>real (length urls) / 20\<rceil>
   \<and> concat (slices urls 0) = urls
   \<and> (\<forall>k < length (slices urls 0).
        slices urls 0 ! k = take 20 (drop (k * 20) urls)
        \<and> slices urls 0 ! k \<noteq> []
        \<and> length (slices urls 0 ! k) \<le> 20
        \<and> body (make_request api_key (slices urls 0 ! k))
            = JArr (map (\<lambda>u. JObj [(''q'', JStr ([CHR 0x22] @ strip u @ [CHR 0x22]))])
                      (slices urls 0 ! k)))"
proof -
  have p: "posts (events (check_index_bulk_run requests_post urls api_key))
     = map (make_request api_key) (slices urls 0)"
    by (simp add: check_index_bulk_run_def posts_bulk_loop)
  have n: "int (length (slices urls 0)) = \<lceil>real (length urls) / 20\<rceil>"
    by (simp add: length_slices ceil_div)
  have c: "concat (slices urls 0) = urls" by (simp add: concat_slices)
  have b: "slices urls 0 ! k = take 20 (drop (k * 20) urls)
        \<and> slices urls 0 ! k \<noteq> []
        \<and> length (slices urls 0 ! k) \<le> 20
        \<and> body (make_request api_key (slices urls 0 ! k))
            = JArr (map (\<lambda>u. JObj [(''q'', JStr ([CHR 0x22] @ strip u @ [CHR 0x22]))])
                      (slices urls 0 ! k))" if "k < length (slices urls 0)" for k
  proof -
    from that have "slices urls 0 ! k \<in> set (slices urls 0)" by simp
    from slices_bounds[OF this] nth_slices[OF that] show ?thesis
      by (simp add: BATCH_SIZE_def make_request_def make_payload_def)
  qed
  have q: "int (length (posts (events (check_index_bulk_run requests_post urls api_key))))
     = \<lceil>real (length urls) / 20\<rceil>"
    using n by (simp only: p length_map)
  from p q c b show ?thesis by blast
qed

theorem bulk_batches_witness:
  "posts (events (check_index_bulk_run (\<lambda>k r. Inl (Timeout ''timed out''))
       (replicate 20 ''a.com/x'' @ [''b.com/y'']) ''K''))
     = [make_request ''K'' (replicate 20 ''a.com/x''), make_request ''K'' [''b.com/y'']]
   \<and> body (make_request ''K'' [''b.com/y''])
     = JArr [JObj [(''q'', JStr ([CHR 0x22] @ ''b.com/y'' @ [CHR 0x22]))]]"
  using bulk_batches[of "\<lambda>k r. Inl (Timeout ''timed out'')" "replicate 20 ''a.com/x'' @ [''b.com/y'']" "''K''"]
  apply (simp add: slices.simps[of _ 0] slices.simps[of _ 20] slices.simps[of _ 40] BATCH_SIZE_def)
  apply (simp add: strip_def lstrip_def rstrip_def py_isspace_def make_request_def make_payload_def)
  done

text \<open>
  C2: when the call for a batch fails (it raises, the status is not 200, or the body does
  not parse), every URL of the batch is set to \<open>False\<close> by that iteration, whatever
  the state before; in the returned mapping it is \<open>False\<close> unless a later batch holds
  the URL again; the requests of all batches, the later ones included, are still issued;
  and the verdict of every URL outside the batch is the one any other outcome of that
  call would have left. The run returns a mapping in every case: the model has no
  exceptional result, every exception of the body being handled in the iteration.
\<close>

theorem failed_batch_isolated:
  assumes k: "k < length (slices urls 0)"
    and fail: "backend_failure (requests_post k (make_request api_key (slices urls 0 ! k)))"
  shows "(\<forall>u \<in> set (slices urls 0 ! k). \<forall>st.
            indexed_map (process_batch requests_post api_key (k * BATCH_SIZE)
                           (slices urls 0 ! k) st) u = Some False)
       \<and> (\<forall>u \<in> set (slices urls 0 ! k). u \<notin> set (drop ((k + 1) * BATCH_SIZE) urls) \<longrightarrow>
            check_index_bulk requests_post urls api_key u = Some False)
       \<and> posts (events (check_index_bulk_run requests_post urls api_key))
            = map (make_request api_key) (slices urls 0)
       \<and> (\<forall>other. (\<forall>k' req. k' \<noteq> k \<longrightarrow> other k' req = requests_post k' req) \<longrightarrow>
            (\<forall>u. u \<notin> set (slices urls 0 ! k) \<longrightarrow>
               check_index_bulk other urls api_key u
                 = check_index_bulk requests_post urls api_key u))"
proof -
  let ?i0 = "k * BATCH_SIZE"
  have b: "slices urls 0 ! k = take BATCH_SIZE (drop ?i0 urls)"
    using nth_slices[OF k] by simp
  have dv: "BATCH_SIZE dvd ?i0" by simp
  have kk: "?i0 div BATCH_SIZE = k" by (simp add: BATCH_SIZE_def)
  have lt: "?i0 < length urls" by (rule slices_start[OF k])
  have fail': "backend_failure (requests_post (?i0 div BATCH_SIZE)
                 (make_request api_key (take BATCH_SIZE (drop ?i0 urls))))"
    using fail by (simp only: kk b)
  have A: "indexed_map (process_batch requests_post api_key ?i0 (slices urls 0 ! k) st) u = Some False"
    if "u \<in> set (slices urls 0 ! k)" for u st
    using fail' that unfolding b by (rule process_batch_failure)
  have B: "check_index_bulk requests_post urls api_key u = Some False"
    if "u \<in> set (slices urls 0 ! k)" "u \<notin> set (drop ((k + 1) * BATCH_SIZE) urls)" for u
  proof -
    from that(2) have "u \<notin> set (drop (?i0 + BATCH_SIZE) urls)" by (simp add: add.commute)
    with that(1) dv lt fail' show ?thesis
      unfolding check_index_bulk_def check_index_bulk_run_def b
      by (intro bulk_loop_failed_batch[where ?i0.0="?i0" and rp=requests_post and key=api_key
                  and urls=urls and u=u and i=0]) simp_all
  qed
  have C: "posts (events (check_index_bulk_run requests_post urls api_key))
            = map (make_request api_key) (slices urls 0)"
    by (simp add: check_index_bulk_run_def posts_bulk_loop)
  have D: "check_index_bulk other urls api_key u = check_index_bulk requests_post urls api_key u"
    if "\<forall>k' req. k' \<noteq> k \<longrightarrow> other k' req = requests_post k' req" "u \<notin> set (slices urls 0 ! k)"
    for other u
    unfolding check_index_bulk_def check_index_bulk_run_def
    using that dv
    by (intro bulk_loop_noninterference[where ?i0.0="?i0" and rp=requests_post and rp'=other
                and key=api_key and urls=urls and u=u and i=0]) (simp_all add: kk b)
  from A B C D show ?thesis by blast
qed


theorem failed_batch_isolated_witness:
  "check_index_bulk
     (\<lambda>k req. if k = 0 then Inl (Timeout ''timed out'')
               else Inr \<lparr>status_code = 200, text_body = [],
                        json_result = Inr (JArr [JObj [(''organic'',
                          JArr [JObj [(''link'', JStr ''https://b.com/y/'')]])]])\<rparr>)
     (replicate 20 ''a.com/x'' @ [''b.com/y'']) ''K'' ''a.com/x'' = Some False
   \<and> check_index_bulk
     (\<lambda>k req. if k = 0 then Inl (Timeout ''timed out'')
               else Inr \<lparr>status_code = 200, text_body = [],
                        json_result = Inr (JArr [JObj [(''organic'',
                          JArr [JObj [(''link'', JStr ''https://b.com/y/'')]])]])\<rparr>)
     (replicate 20 ''a.com/x'' @ [''b.com/y'']) ''K'' ''b.com/y'' = Some True"
proof -
  let ?rp = "\<lambda>k req. if k = (0::nat) then Inl (Timeout ''timed out'')
               else Inr \<lparr>status_code = 200, text_body = [],
                        json_result = Inr (JArr [JObj [(''organic'',
                          JArr [JObj [(''link'', JStr ''https://b.com/y/'')]])]])\<rparr>"
  let ?U = "replicate 20 ''a.com/x'' @ [''b.com/y'']"
  have s: "slices ?U 0 = [replicate 20 ''a.com/x'', [''b.com/y'']]"
    by (simp add: slices.simps[of _ 0] slices.simps[of _ 20] slices.simps[of _ 40] BATCH_SIZE_def)
  have k: "0 < length (slices ?U 0)" by (simp add: s)
  have f: "backend_failure (?rp 0 (make_request ''K'' (slices ?U 0 ! 0)))"
    by (simp add: backend_failure_def)
  note T = failed_batch_isolated[where k=0 and urls="?U" and requests_post="?rp"
                 and api_key="''K''", OF k f]
  from T have "\<forall>u \<in> set (slices ?U 0 ! 0). u \<notin> set (drop ((0 + 1) * BATCH_SIZE) ?U) \<longrightarrow>
            check_index_bulk ?rp ?U ''K'' u = Some False" by blast
  then have a: "check_index_bulk ?rp ?U ''K'' ''a.com/x'' = Some False"
    by (simp add: s BATCH_SIZE_def)
  have b: "check_index_bulk ?rp ?U ''K'' ''b.com/y'' = Some True"
    by (simp add: check_index_bulk_def check_index_bulk_run_def
        bulk_loop.simps[of _ _ _ 0] bulk_loop.simps[of _ _ _ 20] bulk_loop.simps[of _ _ _ 40]
        BATCH_SIZE_def process_batch_def try_batch_def emit_def indexed_map_mark_false
        is_found_def strip_def lstrip_def rstrip_def rstrip_chars_def py_isspace_def)
  from a b show ?thesis by simp
qed

text \<open>
  C7: the pause after a batch. After a response whose status is not 200 the iteration
  ends at \<open>continue\<close>, before \<open>time.sleep(1)\<close>: the run below issues its request,
  prints the failure and pauses nowhere. A batch whose call raises is followed by the
  pause.
\<close>

theorem no_pause_after_bad_status:
  "events (check_index_bulk_run
      (\<lambda>k req. Inr \<lparr>status_code = 429, text_body = ''Too Many Requests'',
                     json_result = Inl (OtherException ''Expecting value'')\<rparr>)
      [''a.com/x''] ''K'')
     = [Post (make_request ''K'' [''a.com/x'']),
        Print ''Batch failed with status 429: Too Many Requests'']
   \<and> sleeps (events (check_index_bulk_run
      (\<lambda>k req. Inr \<lparr>status_code = 429, text_body = ''Too Many Requests'',
                     json_result = Inl (OtherException ''Expecting value'')\<rparr>)
      [''a.com/x''] ''K'')) = []
   \<and> sleeps (events (check_index_bulk_run
      (\<lambda>k req. Inl (Timeout ''timed out'')) [''a.com/x''] ''K'')) = [1]"
  by (simp add: check_index_bulk_run_def bulk_loop.simps[of _ _ _ 0] bulk_loop.simps[of _ _ _ 20]
      BATCH_SIZE_def process_batch_def try_batch_def emit_def mark_false_def str_int_def
      str_nat.simps char_of_digit)

text \<open>
  C1: one entry per input URL. The keys of the returned mapping are always input URLs
  (\<open>dom_check_index_bulk\<close>), but not every input URL is a key: a response with status
  200 that holds fewer result-sets than the batch has URLs leaves the remaining URLs
  without an entry. Of two URLs and one result-set, only the first URL is a key of the
  returned mapping.
\<close>

theorem short_response_leaves_url_unset:
  "dom (check_index_bulk
      (\<lambda>k req. Inr \<lparr>status_code = 200, text_body = ''[{}]'',
                     json_result = Inr (JArr [JObj [(''organic'', JArr [])]])\<rparr>)
      [''a.com/x'', ''a.com/y''] ''K'') = {''a.com/x''}"
  by (simp add: check_index_bulk_def check_index_bulk_run_def bulk_loop.simps[of _ _ _ 0]
      bulk_loop.simps[of _ _ _ 20] BATCH_SIZE_def process_batch_def try_batch_def emit_def
      mark_false_def is_found_def)

text \<open>
  C3, as amended: in a batch whose response has status 200 and holds result-sets of the
  documented shape, the URL at a position that has a result-set (and that no later such
  position repeats) is mapped to \<open>True\<close> if and only if some link of that result-set,
  with its trailing slashes dropped but not trimmed, contains as a contiguous substring
  the URL, trimmed and with its trailing slashes dropped. The match is by substring:
  \<open>example.com/page\<close> is found in \<open>https://example.com/page2\<close>.
\<close>

theorem indexed_iff_link_contains_url:
  assumes resp: "requests_post (i div BATCH_SIZE) (make_request api_key batch_urls) = Inr resp"
    and ok: "status_code resp = 200"
    and js: "json_result resp = Inr (JArr results)"
    and wf: "map result_links results = map Some linkss"
    and j: "j < length batch_urls" "j < length results"
    and last: "\<forall>j'. j < j' \<and> j' < length batch_urls \<and> j' < length results
                 \<longrightarrow> batch_urls ! j' \<noteq> batch_urls ! j"
  shows "indexed_map (process_batch requests_post api_key i batch_urls st) (batch_urls ! j)
       = Some (\<exists>l \<in> set (linkss ! j).
                 sublist (rstrip_chars ''/'' (strip (batch_urls ! j))) (rstrip_chars ''/'' l))"
proof -
  let ?ps = "zip batch_urls linkss"
  have len: "length linkss = length results"
    using wf by (metis length_map)
  have jp: "j < length ?ps" using j len by simp
  have m: "indexed_map (process_batch requests_post api_key i batch_urls st)
         = foldl set_verdict (indexed_map st) ?ps"
    using resp ok js map_results_links[OF wf]
    by (simp add: process_batch_def try_batch_def emit_def Let_def)
  have l: "\<forall>j'. j < j' \<and> j' < length ?ps \<longrightarrow> fst (?ps ! j') \<noteq> fst (?ps ! j)"
    using last j len by simp
  have "foldl set_verdict (indexed_map st) ?ps (fst (?ps ! j)) = Some (link_match (?ps ! j))"
    using jp l by (rule foldl_verdict_last)
  then show ?thesis using jp j len by (simp add: m link_match_def)
qed


theorem indexed_iff_link_contains_url_witness:
  "indexed_map (process_batch
      (\<lambda>k req. Inr \<lparr>status_code = 200, text_body = [],
                     json_result = Inr (JArr [JObj [(''organic'',
                       JArr [JObj [(''link'', JStr ''https://example.com/page2'')]])]])\<rparr>)
      ''K'' 0 [''example.com/page''] \<lparr>indexed_map = Map.empty, events = []\<rparr>)
     ''example.com/page'' = Some True"
proof -
  let ?resp = "\<lparr>status_code = 200, text_body = [],
                     json_result = Inr (JArr [JObj [(''organic'',
                       JArr [JObj [(''link'', JStr ''https://example.com/page2'')]])]])\<rparr>"
  let ?rp = "\<lambda>(k::nat) (req::post_request). (Inr ?resp :: exn + response)"
  have 1: "?rp (0 div BATCH_SIZE) (make_request ''K'' [''example.com/page'']) = Inr ?resp" by simp
  have 2: "status_code ?resp = 200" by simp
  have 3: "json_result ?resp = Inr (JArr [JObj [(''organic'',
                       JArr [JObj [(''link'', JStr ''https://example.com/page2'')]])]])" by simp
  have 4: "map result_links [JObj [(''organic'',
                       JArr [JObj [(''link'', JStr ''https://example.com/page2'')]])]]
             = map Some [[''https://example.com/page2'']]" by simp
  have 5: "\<forall>j'. 0 < j' \<and> j' < length [''example.com/page''] \<and> j' < length [JObj [(''organic'',
                       JArr [JObj [(''link'', JStr ''https://example.com/page2'')]])]]
                 \<longrightarrow> [''example.com/page''] ! j' \<noteq> [''example.com/page''] ! 0" by auto
  have 6: "sublist (rstrip_chars ''/'' (strip ''example.com/page''))
             (rstrip_chars ''/'' ''https://example.com/page2'')"
    by (simp add: py_in_sublist[symmetric] strip_def lstrip_def rstrip_def rstrip_chars_def
          py_isspace_def)
  show ?thesis
    using indexed_iff_link_contains_url[where requests_post="?rp" and i=0 and api_key="''K''"
        and batch_urls="[''example.com/page'']" and j=0
        and st="\<lparr>indexed_map = Map.empty, events = []\<rparr>", OF 1 2 3 4 _ _ 5] 6
    by simp
qed


text \<open>
  C3, as stated, has the link trimmed as well. The program does not trim it: the URL
  \<open>a /\<close> normalises to \<open>a\<close> followed by a space, which the untrimmed link contains
  and the trimmed link does not.
\<close>

theorem link_not_trimmed_counterexample:
  "check_index_bulk
      (\<lambda>k req. Inr \<lparr>status_code = 200, text_body = [],
                     json_result = Inr (JArr [JObj [(''organic'',
                       JArr [JObj [(''link'', JStr ''a '')]])]])\<rparr>)
      [''a /''] ''K'' ''a /'' = Some True
   \<and> \<not> spec_is_found ''a /'' [''a '']"
  by (simp add: check_index_bulk_def check_index_bulk_run_def bulk_loop.simps[of _ _ _ 0]
      bulk_loop.simps[of _ _ _ 20] BATCH_SIZE_def process_batch_def try_batch_def emit_def
      is_found_def spec_is_found_def py_in_sublist[symmetric]
      strip_def lstrip_def rstrip_def rstrip_chars_def py_isspace_def)

text \<open>
  C4: \<open>get_ai_diagnosis\<close> returns a string on every input: each exception of the body
  reaches a handler, and each handler returns. A response whose status is not 200 (so
  every status outside 2xx) gives the string that names the status code; an exception of
  the fetch is the exception of the body; a timeout gives one fixed string, a connection
  error another, and any other exception gives \<open>Error: \<close> followed by its message as it
  is. The status string differs from all of these, the two fixed strings differ, and the
  last form equals a fixed string only for the message that spells its text.
\<close>

theorem diagnosis_failure_strings:
  "(\<forall>res. requests_get url browser_headers 15 = Inr res \<longrightarrow> status_code res \<noteq> 200 \<longrightarrow>
      get_ai_diagnosis requests_get BeautifulSoup generate_content url
        = ''Site blocked the crawler (Status Code: '' @ str_int (status_code res) @ '').'')
   \<and> (\<forall>e. requests_get url browser_headers 15 = Inl e \<longrightarrow>
        diagnosis_try requests_get BeautifulSoup generate_content url = Inl e)
   \<and> (\<forall>m. diagnosis_try requests_get BeautifulSoup generate_content url = Inl (Timeout m) \<longrightarrow>
      get_ai_diagnosis requests_get BeautifulSoup generate_content url
        = ''Error: Connection timed out (Site is slow).'')
   \<and> (\<forall>m. diagnosis_try requests_get BeautifulSoup generate_content url = Inl (ConnectionError m) \<longrightarrow>
      get_ai_diagnosis requests_get BeautifulSoup generate_content url
        = ''Error: Connection refused (Bot protection).'')
   \<and> (\<forall>e. diagnosis_try requests_get BeautifulSoup generate_content url = Inl e \<longrightarrow>
        (\<forall>m. e \<noteq> Timeout m) \<longrightarrow> (\<forall>m. e \<noteq> ConnectionError m) \<longrightarrow>
      get_ai_diagnosis requests_get BeautifulSoup generate_content url = ''Error: '' @ str_exn e)
   \<and> ''Error: Connection timed out (Site is slow).'' \<noteq> ''Error: Connection refused (Bot protection).''
   \<and> (\<forall>n m. ''Site blocked the crawler (Status Code: '' @ str_int n @ '').'' \<noteq> ''Error: '' @ m)
   \<and> (\<forall>m. (''Error: '' @ m = ''Error: Connection timed out (Site is slow).'')
            = (m = ''Connection timed out (Site is slow).''))
   \<and> (\<forall>m. (''Error: '' @ m = ''Error: Connection refused (Bot protection).'')
            = (m = ''Connection refused (Bot protection).''))"
proof (intro conjI allI impI)
  fix res
  assume "requests_get url browser_headers 15 = Inr res" "status_code res \<noteq> 200"
  then show "get_ai_diagnosis requests_get BeautifulSoup generate_content url
        = ''Site blocked the crawler (Status Code: '' @ str_int (status_code res) @ '').''"
    by (simp add: get_ai_diagnosis_def diagnosis_try_def)
next
  fix e
  assume "requests_get url browser_headers 15 = Inl e"
  then show "diagnosis_try requests_get BeautifulSoup generate_content url = Inl e"
    by (simp add: diagnosis_try_def)
next
  fix m
  assume "diagnosis_try requests_get BeautifulSoup generate_content url = Inl (Timeout m)"
  from get_ai_diagnosis_raised[OF this]
  show "get_ai_diagnosis requests_get BeautifulSoup generate_content url
        = ''Error: Connection timed out (Site is slow).''" by simp
next
  fix m
  assume "diagnosis_try requests_get BeautifulSoup generate_content url = Inl (ConnectionError m)"
  from get_ai_diagnosis_raised[OF this]
  show "get_ai_diagnosis requests_get BeautifulSoup generate_content url
        = ''Error: Connection refused (Bot protection).''" by simp
next
  fix e
  assume "diagnosis_try requests_get BeautifulSoup generate_content url = Inl e"
    and "\<forall>m. e \<noteq> Timeout m" "\<forall>m. e \<noteq> ConnectionError m"
  then show "get_ai_diagnosis requests_get BeautifulSoup generate_content url = ''Error: '' @ str_exn e"
    by (simp add: get_ai_diagnosis_raised diagnosis_handler_other)
qed simp_all

theorem diagnosis_failure_strings_witness:
  "get_ai_diagnosis
     (\<lambda>u h t. Inr \<lparr>status_code = 404, text_body = ''Not Found'',
                    json_result = Inl (OtherException ''Expecting value'')\<rparr>)
     (\<lambda>b p. Inr []) (\<lambda>m p. Inr (Some ''Thin content'')) ''https://a.com/x''
     = ''Site blocked the crawler (Status Code: 404).''
   \<and> get_ai_diagnosis (\<lambda>u h t. Inl (Timeout ''read timed out''))
     (\<lambda>b p. Inr []) (\<lambda>m p. Inr (Some ''Thin content'')) ''https://a.com/x''
     = ''Error: Connection timed out (Site is slow).''
   \<and> get_ai_diagnosis (\<lambda>u h t. Inl (ConnectionError ''connection refused''))
     (\<lambda>b p. Inr []) (\<lambda>m p. Inr (Some ''Thin content'')) ''https://a.com/x''
     = ''Error: Connection refused (Bot protection).''
   \<and> get_ai_diagnosis (\<lambda>u h t. Inl (OtherException ''Invalid URL''))
     (\<lambda>b p. Inr []) (\<lambda>m p. Inr (Some ''Thin content'')) ''https://a.com/x''
     = ''Error: Invalid URL''"
proof -
  let ?bs = "\<lambda>(b::string) (p::string). (Inr [] :: exn + node list)"
  let ?gen = "\<lambda>(m::string) (p::string). (Inr (Some ''Thin content'') :: exn + string option)"
  let ?u = "''https://a.com/x''"
  let ?r404 = "\<lambda>(u::string) (h::(string \<times> string) list) (t::nat).
     (Inr \<lparr>status_code = 404, text_body = ''Not Found'',
           json_result = Inl (OtherException ''Expecting value'')\<rparr> :: exn + response)"
  let ?rt = "\<lambda>(u::string) (h::(string \<times> string) list) (t::nat).
     (Inl (Timeout ''read timed out'') :: exn + response)"
  let ?rc = "\<lambda>(u::string) (h::(string \<times> string) list) (t::nat).
     (Inl (ConnectionError ''connection refused'') :: exn + response)"
  let ?ro = "\<lambda>(u::string) (h::(string \<times> string) list) (t::nat).
     (Inl (OtherException ''Invalid URL'') :: exn + response)"
  have a: "get_ai_diagnosis ?r404 ?bs ?gen ?u = ''Site blocked the crawler (Status Code: 404).''"
    using diagnosis_failure_strings[where requests_get="?r404" and BeautifulSoup="?bs"
        and generate_content="?gen" and url="?u"]
    by (simp add: str_int_def str_nat.simps char_of_digit)
  have b: "get_ai_diagnosis ?rt ?bs ?gen ?u = ''Error: Connection timed out (Site is slow).''"
    using diagnosis_failure_strings[where requests_get="?rt" and BeautifulSoup="?bs"
        and generate_content="?gen" and url="?u"]
    by simp
  have c: "get_ai_diagnosis ?rc ?bs ?gen ?u = ''Error: Connection refused (Bot protection).''"
    using diagnosis_failure_strings[where requests_get="?rc" and BeautifulSoup="?bs"
        and generate_content="?gen" and url="?u"]
    by simp
  have d: "get_ai_diagnosis ?ro ?bs ?gen ?u = ''Error: Invalid URL''"
    using diagnosis_failure_strings[where requests_get="?ro" and BeautifulSoup="?bs"
        and generate_content="?gen" and url="?u"]
    by simp
  from a b c d show ?thesis by simp
qed

text \<open>
  C6, as amended: when the fetch returns status 200, the body parses, and the model call
  on the prompt built from the parsed page returns a text, \<open>get_ai_diagnosis\<close> returns
  that text trimmed; the text of the prompt is extracted from the tree after every
  \<open>script\<close> and \<open>style\<close> tag has left it.
\<close>

theorem diagnosis_on_status_200:
  assumes "requests_get url browser_headers 15 = Inr res"
    and "status_code res = 200"
    and "BeautifulSoup (text_body res) ''html.parser'' = Inr soup"
    and "generate_content ''gemini-3-flash-preview''
           (make_prompt url (page_title url soup)
              (take 1500 (get_text '' '' (extract_tags [''script'', ''style''] soup))))
         = Inr (Some t)"
  shows "get_ai_diagnosis requests_get BeautifulSoup generate_content url = strip t
       \<and> find_tag ''script'' (extract_tags [''script'', ''style''] soup) = None
       \<and> find_tag ''style'' (extract_tags [''script'', ''style''] soup) = None"
  using assms
  by (simp add: diagnosis_on_parsed_page[where requests_get=requests_get and BeautifulSoup=BeautifulSoup
        and url=url and res=res and soup=soup, OF assms(1-3)] diagnosis_prompt_def page_text_def
        find_tag_extract_tags)

theorem diagnosis_on_status_200_witness:
  "get_ai_diagnosis
     (\<lambda>u h t. Inr \<lparr>status_code = 200, text_body = ''<html></html>'',
                    json_result = Inl (OtherException ''Expecting value'')\<rparr>)
     (\<lambda>b p. Inr [Tag ''html'' [Tag ''script'' [NavigableString ''var x = 1;'']]])
     (\<lambda>m p. Inr (Some '' Thin content. '')) ''https://a.com/x''
   = ''Thin content.''"
proof -
  let ?res = "\<lparr>status_code = 200, text_body = ''<html></html>'',
                    json_result = Inl (OtherException ''Expecting value'')\<rparr>"
  let ?rg = "\<lambda>(u::string) (h::(string \<times> string) list) (t::nat). (Inr ?res :: exn + response)"
  let ?soup = "[Tag ''html'' [Tag ''script'' [NavigableString ''var x = 1;'']]]"
  let ?bs = "\<lambda>(b::string) (p::string). (Inr ?soup :: exn + node list)"
  let ?gen = "\<lambda>(m::string) (p::string). (Inr (Some '' Thin content. '') :: exn + string option)"
  have 1: "?rg ''https://a.com/x'' browser_headers 15 = Inr ?res" by simp
  have 2: "status_code ?res = 200" by simp
  have 3: "?bs (text_body ?res) ''html.parser'' = Inr ?soup" by simp
  have 4: "?gen ''gemini-3-flash-preview''
           (make_prompt ''https://a.com/x'' (page_title ''https://a.com/x'' ?soup)
              (take 1500 (get_text '' '' (extract_tags [''script'', ''style''] ?soup))))
         = Inr (Some '' Thin content. '')" by simp
  have 5: "strip '' Thin content. '' = ''Thin content.''"
    by (simp add: strip_def lstrip_def rstrip_def py_isspace_def)
  show ?thesis
    using diagnosis_on_status_200[where requests_get="?rg" and BeautifulSoup="?bs"
        and generate_content="?gen", OF 1 2 3 4] 5
    by simp
qed


text \<open>
  C6, as stated, covers every 2xx status. The program tests for 200 alone: on a 204 it
  returns the string that names the status, not the answer of the model.
\<close>

theorem status_204_counterexample:
  "get_ai_diagnosis
     (\<lambda>u h t. Inr \<lparr>status_code = 204, text_body = [],
                    json_result = Inl (OtherException ''Expecting value'')\<rparr>)
     (\<lambda>b p. Inr []) (\<lambda>m p. Inr (Some ''Thin content.'')) ''https://a.com/x''
   = ''Site blocked the crawler (Status Code: 204).''
   \<and> get_ai_diagnosis
     (\<lambda>u h t. Inr \<lparr>status_code = 204, text_body = [],
                    json_result = Inl (OtherException ''Expecting value'')\<rparr>)
     (\<lambda>b p. Inr []) (\<lambda>m p. Inr (Some ''Thin content.'')) ''https://a.com/x''
   \<noteq> strip ''Thin content.''"
  by (simp add: get_ai_diagnosis_def diagnosis_try_def str_int_def str_nat.simps char_of_digit
        strip_def lstrip_def rstrip_def py_isspace_def)

text \<open>
  C8, as amended: on a fetched and parsed page the prompt handed to the model carries,
  on its \<open>Title:\<close> line, the URL itself when the page has no \<open>title\<close> tag, or
  when the \<open>.string\<close> of that tag is \<open>None\<close> (the tag has no child, or more than
  one, or its only child is a tag whose own \<open>.string\<close> is \<open>None\<close>) or empty;
  otherwise it carries that \<open>.string\<close>, stripped: the only string under the tag, be
  it text or a comment.
\<close>

theorem title_in_prompt:
  assumes "requests_get url browser_headers 15 = Inr res"
    and "status_code res = 200"
    and "BeautifulSoup (text_body res) ''html.parser'' = Inr soup"
  shows "get_ai_diagnosis requests_get BeautifulSoup generate_content url
           = (case generate_content ''gemini-3-flash-preview''
                     (make_prompt url (page_title url soup) (page_text soup)) of
                Inl e \<Rightarrow> diagnosis_handler e
              | Inr None \<Rightarrow> diagnosis_handler (no_attribute JNull ''strip'')
              | Inr (Some t) \<Rightarrow> strip t)
       \<and> (\<forall>title snippet. make_prompt url title snippet
             = ''Analyze this web page for SEO indexing issues.'' @ [CHR 0x0A]
               @ ''URL: '' @ url @ [CHR 0x0A]
               @ ''Content Extracted:'' @ [CHR 0x0A]
               @ ''Title: '' @ title @ [CHR 0x0A]
               @ ''Page Text Snippet: '' @ snippet @ [CHR 0x0A, CHR 0x0A]
               @ ''Task: The page is NOT indexed by Google. Based on the content above, ''
               @ ''give 1 likely technical or content reason (e.g., '' @ [CHR 0x27]
               @ ''Thin content'' @ [CHR 0x27] @ '', '' @ [CHR 0x27] @ ''Under construction''
               @ [CHR 0x27] @ '', '' @ [CHR 0x27] @ ''Login wall'' @ [CHR 0x27] @ '', ''
               @ [CHR 0x27] @ ''Technical error'' @ [CHR 0x27] @ '').''
               @ ''Keep it under 15 words.'')
       \<and> (find_tag ''title'' soup = None \<longrightarrow> page_title url soup = url)
       \<and> (\<forall>cs. find_tag ''title'' soup = Some cs \<longrightarrow> tag_string cs = None \<longrightarrow>
             page_title url soup = url)
       \<and> (\<forall>cs. find_tag ''title'' soup = Some cs \<longrightarrow> tag_string cs = Some [] \<longrightarrow>
             page_title url soup = url)
       \<and> (\<forall>cs s. find_tag ''title'' soup = Some cs \<longrightarrow> tag_string cs = Some s \<longrightarrow> s \<noteq> [] \<longrightarrow>
             page_title url soup = strip s)
       \<and> tag_string [] = None
       \<and> (\<forall>c d cs. tag_string (c # d # cs) = None)
       \<and> (\<forall>s. tag_string [NavigableString s] = Some s)
       \<and> (\<forall>s. tag_string [SpecialString s] = Some s)
       \<and> (\<forall>t cs. tag_string [Tag t cs] = tag_string cs)"
proof -
  have a: "get_ai_diagnosis requests_get BeautifulSoup generate_content url
           = (case generate_content ''gemini-3-flash-preview''
                     (make_prompt url (page_title url soup) (page_text soup)) of
                Inl e \<Rightarrow> diagnosis_handler e
              | Inr None \<Rightarrow> diagnosis_handler (no_attribute JNull ''strip'')
              | Inr (Some t) \<Rightarrow> strip t)"
    by (simp add: diagnosis_on_parsed_page[where requests_get=requests_get
          and BeautifulSoup=BeautifulSoup and url=url and res=res and soup=soup, OF assms]
          diagnosis_prompt_def)
  have b: "make_prompt url title snippet
             = ''Analyze this web page for SEO indexing issues.'' @ [CHR 0x0A]
               @ ''URL: '' @ url @ [CHR 0x0A]
               @ ''Content Extracted:'' @ [CHR 0x0A]
               @ ''Title: '' @ title @ [CHR 0x0A]
               @ ''Page Text Snippet: '' @ snippet @ [CHR 0x0A, CHR 0x0A]
               @ ''Task: The page is NOT indexed by Google. Based on the content above, ''
               @ ''give 1 likely technical or content reason (e.g., '' @ [CHR 0x27]
               @ ''Thin content'' @ [CHR 0x27] @ '', '' @ [CHR 0x27] @ ''Under construction''
               @ [CHR 0x27] @ '', '' @ [CHR 0x27] @ ''Login wall'' @ [CHR 0x27] @ '', ''
               @ [CHR 0x27] @ ''Technical error'' @ [CHR 0x27] @ '').''
               @ ''Keep it under 15 words.''" for title snippet
    by (simp add: make_prompt_def)
  have c: "find_tag ''title'' soup = None \<longrightarrow> page_title url soup = url"
    by (simp add: page_title_def)
  have d: "find_tag ''title'' soup = Some cs \<longrightarrow> tag_string cs = None \<longrightarrow>
             page_title url soup = url" for cs
    by (simp add: page_title_def)
  have e: "find_tag ''title'' soup = Some cs \<longrightarrow> tag_string cs = Some [] \<longrightarrow>
             page_title url soup = url" for cs
    by (simp add: page_title_def)
  have f: "find_tag ''title'' soup = Some cs \<longrightarrow> tag_string cs = Some s \<longrightarrow> s \<noteq> [] \<longrightarrow>
             page_title url soup = strip s" for cs s
    by (simp add: page_title_def)
  have g: "tag_string (c # d # cs) = None" for c d cs
    by (cases c) simp_all
  from a b c d e f g show ?thesis by simp
qed


theorem title_in_prompt_witness:
  "get_ai_diagnosis
     (\<lambda>u h t. Inr \<lparr>status_code = 200, text_body = ''<html></html>'',
                    json_result = Inl (OtherException ''Expecting value'')\<rparr>)
     (\<lambda>b p. Inr [Tag ''html'' [Tag ''head'' [Tag ''title'' [NavigableString '' Hello '']]]])
     (\<lambda>m p. if p = make_prompt ''https://a.com/x'' ''Hello''
                     (page_text [Tag ''html'' [Tag ''head'' [Tag ''title''
                        [NavigableString '' Hello '']]]])
              then Inr (Some ''seen'') else Inr None)
     ''https://a.com/x'' = ''seen''
   \<and> page_title ''https://a.com/x'' [Tag ''html'' [Tag ''head'' [Tag ''title'' []]]]
     = ''https://a.com/x''
   \<and> page_title ''https://a.com/x'' [Tag ''html'' [Tag ''body'' []]] = ''https://a.com/x''
   \<and> page_title ''https://a.com/x''
       [Tag ''html'' [Tag ''head'' [Tag ''title''
          [NavigableString ''Hello '', Tag ''b'' [NavigableString ''World'']]]]]
     = ''https://a.com/x''
   \<and> page_title ''https://a.com/x''
       [Tag ''html'' [Tag ''head'' [Tag ''title'' [SpecialString '' draft '']]]]
     = ''draft''"
proof -
  let ?res = "\<lparr>status_code = 200, text_body = ''<html></html>'',
                    json_result = Inl (OtherException ''Expecting value'')\<rparr>"
  let ?rg = "\<lambda>(u::string) (h::(string \<times> string) list) (t::nat). (Inr ?res :: exn + response)"
  let ?gen = "\<lambda>(m::string) (p::string). (Inr (Some ''Thin content.'') :: exn + string option)"
  let ?u = "''https://a.com/x''"
  let ?s1 = "[Tag ''html'' [Tag ''head'' [Tag ''title'' [NavigableString '' Hello '']]]]"
  let ?s2 = "[Tag ''html'' [Tag ''head'' [Tag ''title'' []]]]"
  let ?s3 = "[Tag ''html'' [Tag ''body'' []]]"
  let ?s4 = "[Tag ''html'' [Tag ''head'' [Tag ''title''
          [NavigableString ''Hello '', Tag ''b'' [NavigableString ''World'']]]]]"
  let ?s5 = "[Tag ''html'' [Tag ''head'' [Tag ''title'' [SpecialString '' draft '']]]]"
  let ?g1 = "\<lambda>(m::string) p. if p = make_prompt ?u ''Hello'' (page_text ?s1)
              then Inr (Some ''seen'') else (Inr None :: exn + string option)"
  have 1: "?rg ?u browser_headers 15 = Inr ?res" by simp
  have 2: "status_code ?res = 200" by simp
  have 3: "(\<lambda>(b::string) (p::string). (Inr soup :: exn + node list)) (text_body ?res) ''html.parser''
             = Inr soup" for soup by simp
  have 5: "strip '' Hello '' = ''Hello''" "strip '' draft '' = ''draft''" "strip ''seen'' = ''seen''"
    by (simp_all add: strip_def lstrip_def rstrip_def py_isspace_def)
  note T = title_in_prompt[where requests_get="?rg" and BeautifulSoup="\<lambda>b p. Inr ?s1"
        and generate_content="?g1" and soup="?s1" and url="?u", OF 1 2 3]
  have a: "get_ai_diagnosis ?rg (\<lambda>b p. Inr ?s1) ?g1 ?u = ''seen''"
    using T[THEN conjunct1] T[THEN conjunct2, THEN conjunct2] 5
    by simp
  have b: "page_title ?u ?s2 = ?u"
    using title_in_prompt[where requests_get="?rg" and BeautifulSoup="\<lambda>b p. Inr ?s2"
        and generate_content="?gen" and soup="?s2" and url="?u", OF 1 2 3]
    by simp
  have c: "page_title ?u ?s3 = ?u"
    using title_in_prompt[where requests_get="?rg" and BeautifulSoup="\<lambda>b p. Inr ?s3"
        and generate_content="?gen" and soup="?s3" and url="?u", OF 1 2 3]
    by simp
  have d: "page_title ?u ?s4 = ?u"
    using title_in_prompt[where requests_get="?rg" and BeautifulSoup="\<lambda>b p. Inr ?s4"
        and generate_content="?gen" and soup="?s4" and url="?u", OF 1 2 3]
    by simp
  have e: "page_title ?u ?s5 = ''draft''"
    using title_in_prompt[where requests_get="?rg" and BeautifulSoup="\<lambda>b p. Inr ?s5"
        and generate_content="?gen" and soup="?s5" and url="?u", OF 1 2 3] 5
    by simp
  from a b c d e show ?thesis by simp
qed


text \<open>
  C8, as stated, takes the text of the title whenever it is not empty. The program reads
  \<open>.string\<close>, which is \<open>None\<close> for a title of several children: for a title that
  holds \<open>Hello\<close> and a \<open>b\<close> tag with \<open>World\<close> the prompt carries the URL, not
  \<open>Hello World\<close>.
\<close>

theorem title_with_child_tag_counterexample:
  "get_ai_diagnosis
     (\<lambda>u h t. Inr \<lparr>status_code = 200, text_body = ''<title>Hello <b>World</b></title>'',
                    json_result = Inl (OtherException ''Expecting value'')\<rparr>)
     (\<lambda>b p. Inr [Tag ''title'' [NavigableString ''Hello '', Tag ''b'' [NavigableString ''World'']]])
     (\<lambda>m p. if p = make_prompt ''https://a.com/x''
                     (spec_page_title ''https://a.com/x''
                        [Tag ''title'' [NavigableString ''Hello '',
                                        Tag ''b'' [NavigableString ''World'']]])
                     (page_text [Tag ''title'' [NavigableString ''Hello '',
                                                Tag ''b'' [NavigableString ''World'']]])
              then Inr (Some ''title text'')
              else if p = make_prompt ''https://a.com/x'' ''https://a.com/x''
                     (page_text [Tag ''title'' [NavigableString ''Hello '',
                                                Tag ''b'' [NavigableString ''World'']]])
              then Inr (Some ''url'')
              else Inr None)
     ''https://a.com/x'' = ''url''
   \<and> spec_page_title ''https://a.com/x''
       [Tag ''title'' [NavigableString ''Hello '', Tag ''b'' [NavigableString ''World'']]]
     = ''Hello World''"
  by (simp add: get_ai_diagnosis_def diagnosis_try_def diagnosis_prompt_def page_title_def
        spec_page_title_def make_prompt_def page_text_def get_text_def
        strip_def lstrip_def rstrip_def py_isspace_def)

text \<open>
  C9: on a fetched and parsed page the text snippet is at most 1500 characters long,
  whatever the page, and it is this snippet that stands in the prompt handed to the
  model, after the line of the title.
\<close>

theorem page_text_bounded:
  assumes "requests_get url browser_headers 15 = Inr res"
    and "status_code res = 200"
    and "BeautifulSoup (text_body res) ''html.parser'' = Inr soup"
  shows "length (page_text soup) \<le> 1500
       \<and> get_ai_diagnosis requests_get BeautifulSoup generate_content url
           = (case generate_content ''gemini-3-flash-preview''
                     (make_prompt url (page_title url soup) (page_text soup)) of
                Inl e \<Rightarrow> diagnosis_handler e
              | Inr None \<Rightarrow> diagnosis_handler (no_attribute JNull ''strip'')
              | Inr (Some t) \<Rightarrow> strip t)
       \<and> (\<forall>title. \<exists>before after.
             make_prompt url title (page_text soup) = before @ page_text soup @ after
             \<and> before = ''Analyze this web page for SEO indexing issues.'' @ [CHR 0x0A]
                  @ ''URL: '' @ url @ [CHR 0x0A] @ ''Content Extracted:'' @ [CHR 0x0A]
                  @ ''Title: '' @ title @ [CHR 0x0A] @ ''Page Text Snippet: '')"
  by (simp add: diagnosis_on_parsed_page[where requests_get=requests_get and BeautifulSoup=BeautifulSoup
        and url=url and res=res and soup=soup, OF assms] diagnosis_prompt_def page_text_def
        make_prompt_def)


theorem page_text_bounded_witness:
  "length (page_text [Tag ''p'' [NavigableString (replicate 2000 (CHR ''a''))]]) \<le> 1500"
proof -
  let ?res = "\<lparr>status_code = 200, text_body = ''<p></p>'',
                    json_result = Inl (OtherException ''Expecting value'')\<rparr>"
  let ?rg = "\<lambda>(u::string) (h::(string \<times> string) list) (t::nat). (Inr ?res :: exn + response)"
  let ?gen = "\<lambda>(m::string) (p::string). (Inr (Some ''Thin content.'') :: exn + string option)"
  let ?s = "[Tag ''p'' [NavigableString (replicate 2000 (CHR ''a''))]]"
  have 1: "?rg ''https://a.com/x'' browser_headers 15 = Inr ?res" by simp
  have 2: "status_code ?res = 200" by simp
  have 3: "(\<lambda>(b::string) (p::string). (Inr ?s :: exn + node list)) (text_body ?res) ''html.parser''
             = Inr ?s" by simp
  show ?thesis
    using page_text_bounded[where requests_get="?rg" and BeautifulSoup="\<lambda>b p. Inr ?s"
        and generate_content="?gen" and soup="?s", OF 1 2 3]
    by blast
qed

end
